theory Spec2Isabelle
  imports Main "HOL-Library.Word"
begin

unbundle bit_operations_syntax

section \<open>Data model\<close>

text \<open>
  A Go \<^verbatim>\<open>string\<close> is a sequence of bytes; it is modelled by \<^typ>\<open>string\<close>, whose
  characters are bytes. Go's \<^verbatim>\<open>len(s)\<close> is \<^term>\<open>length s\<close>, the number of bytes.
  A \<^verbatim>\<open>byte\<close> is an 8-bit word, a \<^verbatim>\<open>rune\<close> a 32-bit word. Go's \<^verbatim>\<open>int\<close> (indices,
  \<^verbatim>\<open>fillBits\<close>) is modelled by \<^typ>\<open>int\<close>: the only arithmetic on it,
  \<^verbatim>\<open>len(payload)*6 - fillBits\<close>, is computed after \<^verbatim>\<open>fillBits\<close> is known to lie
  in [0, 6) and cannot overflow for a slice that fits in memory.
\<close>

type_synonym byte = "8 word"
type_synonym rune = "32 word"

text \<open>
  Modelled from the spec: the declaration of \<^verbatim>\<open>BaseSentence\<close> is not part of
  parser.go. The spec gives the tokenized message three observable properties: a type
  tag, a prefix string (what \<^verbatim>\<open>p.Prefix()\<close> returns) and the ordered fields.
\<close>

record BaseSentence =
  Type :: string
  Prefix :: string
  Fields :: "string list"

text \<open>
  \<^verbatim>\<open>type parser struct { BaseSentence; err error }\<close>. The error is only ever built
  by \<^verbatim>\<open>fmt.Errorf\<close> in \<^verbatim>\<open>SetErr\<close>, so it is modelled by its message; \<^verbatim>\<open>nil\<close> is
  \<^term>\<open>None\<close>.
\<close>

record parser = BaseSentence +
  err :: "string option"

definition newParser :: "BaseSentence \<Rightarrow> parser" where
  "newParser s = \<lparr>Type = Type s, Prefix = Prefix s, Fields = Fields s, err = None\<rparr>"

text \<open>\<^verbatim>\<open>fmt.Errorf("nmea: %s invalid %s: %s", p.Prefix(), context, value)\<close>\<close>

definition Errorf :: "string \<Rightarrow> string \<Rightarrow> string \<Rightarrow> string" where
  "Errorf prefix context val = ''nmea: '' @ prefix @ '' invalid '' @ context @ '': '' @ val"

section \<open>The field accessor\<close>

text \<open>
  Every method of \<^verbatim>\<open>*parser\<close> takes the parser state as its last argument and returns
  its result together with the state it leaves behind.
\<close>

definition Err :: "parser \<Rightarrow> string option" where
  "Err p = err p"

definition SetErr :: "string \<Rightarrow> string \<Rightarrow> parser \<Rightarrow> parser" where
  "SetErr context val p =
     (if err p = None then p\<lparr>err := Some (Errorf (Prefix p) context val)\<rparr> else p)"

definition AssertType :: "string \<Rightarrow> parser \<Rightarrow> parser" where
  "AssertType typ p = (if Type p \<noteq> typ then SetErr ''type'' (Type p) p else p)"

definition String :: "int \<Rightarrow> string \<Rightarrow> parser \<Rightarrow> string \<times> parser" where
  "String i context p =
     (if err p \<noteq> None then ('''', p)
      else if i < 0 \<or> i \<ge> int (length (Fields p))
        then ('''', SetErr context ''index out of range'' p)
      else (Fields p ! nat i, p))"

text \<open>
  \<^verbatim>\<open>append(list, p.Fields[from:]...)\<close> with \<^verbatim>\<open>list\<close> the nil named result: the fields
  from \<^verbatim>\<open>from\<close> on, in a newly allocated slice.
\<close>

definition ListString :: "int \<Rightarrow> string \<Rightarrow> parser \<Rightarrow> string list \<times> parser" where
  "ListString from context p =
     (if err p \<noteq> None then ([], p)
      else if from < 0 \<or> from \<ge> int (length (Fields p))
        then ([], SetErr context ''index out of range'' p)
      else ([] @ drop (nat from) (Fields p), p))"

text \<open>The loop \<^verbatim>\<open>for _, o := range options { if o == s { return s } }\<close>: does it return?\<close>

fun option_equals :: "string list \<Rightarrow> string \<Rightarrow> bool" where
  "option_equals [] s = False"
| "option_equals (x # options) s = (if x = s then True else option_equals options s)"

definition EnumString :: "int \<Rightarrow> string \<Rightarrow> string list \<Rightarrow> parser \<Rightarrow> string \<times> parser" where
  "EnumString i context options p =
     (case String i context p of (s, p1) \<Rightarrow>
        if err p1 \<noteq> None \<or> s = '''' then ('''', p1)
        else if option_equals options s then (s, p1)
        else ('''', SetErr context s p1))"

subsection \<open>Ranging over a string\<close>

text \<open>
  \<^verbatim>\<open>for _, r := range s\<close> walks the string rune by rune: at each position it decodes
  one UTF-8 sequence and advances by its width; at an invalid sequence the rune is
  \<^verbatim>\<open>0xFFFD\<close> and the position advances by one byte. The decoder is Go's
  \<^verbatim>\<open>utf8.DecodeRuneInString\<close>: the first byte gives the width and the range accepted
  for the second byte, the later bytes lie in \<^verbatim>\<open>0x80..0xBF\<close>.
\<close>

definition RuneError :: rune where
  "RuneError = 0xFFFD"

text \<open>Width announced by the first byte; 0 for a byte that cannot start a sequence.\<close>

definition first_size :: "byte \<Rightarrow> nat" where
  "first_size b =
     (if b < 0x80 then 1
      else if 0xC2 \<le> b \<and> b \<le> 0xDF then 2
      else if 0xE0 \<le> b \<and> b \<le> 0xEF then 3
      else if 0xF0 \<le> b \<and> b \<le> 0xF4 then 4
      else 0)"

definition accept_lo :: "byte \<Rightarrow> byte" where
  "accept_lo b = (if b = 0xE0 then 0xA0 else if b = 0xF0 then 0x90 else 0x80)"

definition accept_hi :: "byte \<Rightarrow> byte" where
  "accept_hi b = (if b = 0xED then 0x9F else if b = 0xF4 then 0x8F else 0xBF)"

definition is_cont :: "byte \<Rightarrow> bool" where
  "is_cont b = (0x80 \<le> b \<and> b \<le> 0xBF)"

definition rune_of :: "byte \<Rightarrow> rune" where
  "rune_of b = ucast b"

fun DecodeRune :: "byte list \<Rightarrow> rune \<times> nat" where
  "DecodeRune [] = (RuneError, 0)"
| "DecodeRune (s0 # bs) =
     (let sz = first_size s0 in
      if sz = 1 then (rune_of s0, 1)
      else if sz = 0 then (RuneError, 1)
      else if length (s0 # bs) < sz then (RuneError, 1)
      else let s1 = bs ! 0 in
        if s1 < accept_lo s0 \<or> accept_hi s0 < s1 then (RuneError, 1)
        else if sz \<le> 2 then
          (push_bit 6 (rune_of (s0 AND 0x1F)) OR rune_of (s1 AND 0x3F), 2)
        else let s2 = bs ! 1 in
          if \<not> is_cont s2 then (RuneError, 1)
          else if sz \<le> 3 then
            (push_bit 12 (rune_of (s0 AND 0x0F)) OR push_bit 6 (rune_of (s1 AND 0x3F))
               OR rune_of (s2 AND 0x3F), 3)
          else let s3 = bs ! 2 in
            if \<not> is_cont s3 then (RuneError, 1)
            else
              (push_bit 18 (rune_of (s0 AND 0x07)) OR push_bit 12 (rune_of (s1 AND 0x3F))
                 OR push_bit 6 (rune_of (s2 AND 0x3F)) OR rune_of (s3 AND 0x3F), 4))"

lemma DecodeRune_width: "bs \<noteq> [] \<Longrightarrow> 1 \<le> snd (DecodeRune bs)"
  by (cases bs) (simp_all add: Let_def)

function range_runes :: "byte list \<Rightarrow> rune list" where
  "range_runes [] = []"
| "range_runes (b # bs) =
     (case DecodeRune (b # bs) of (r, w) \<Rightarrow> r # range_runes (drop w (b # bs)))"
  by pat_completeness auto
termination
proof (relation "measure length")
  show "wf (measure length)"
    by simp
next
  fix b :: byte and bs :: "byte list" and r :: rune and w :: nat
  assume "(r, w) = DecodeRune (b # bs)"
  then have "w = snd (DecodeRune (b # bs))"
    by (metis snd_conv)
  then have "1 \<le> w"
    using DecodeRune_width [of "b # bs"] by simp
  then show "(drop w (b # bs), b # bs) \<in> measure length"
    by simp
qed

text \<open>
  \<^verbatim>\<open>string(r)\<close> is the UTF-8 encoding of the rune (Go's \<^verbatim>\<open>utf8.EncodeRune\<close>); a
  surrogate or a value beyond \<^verbatim>\<open>0x10FFFF\<close> is encoded as \<^verbatim>\<open>0xFFFD\<close>. The rune is
  read as \<^verbatim>\<open>uint32\<close>, as the encoder does.
\<close>

definition byte_of :: "rune \<Rightarrow> byte" where
  "byte_of r = ucast r"

definition encode3 :: "rune \<Rightarrow> byte list" where
  "encode3 r = [0xE0 OR byte_of (drop_bit 12 r),
                0x80 OR (byte_of (drop_bit 6 r) AND 0x3F),
                0x80 OR (byte_of r AND 0x3F)]"

definition EncodeRune :: "rune \<Rightarrow> byte list" where
  "EncodeRune r =
     (if r \<le> 0x7F then [byte_of r]
      else if r \<le> 0x7FF then
        [0xC0 OR byte_of (drop_bit 6 r), 0x80 OR (byte_of r AND 0x3F)]
      else if r > 0x10FFFF \<or> (0xD800 \<le> r \<and> r \<le> 0xDFFF) then encode3 RuneError
      else if r \<le> 0xFFFF then encode3 r
      else [0xF0 OR byte_of (drop_bit 18 r),
            0x80 OR (byte_of (drop_bit 12 r) AND 0x3F),
            0x80 OR (byte_of (drop_bit 6 r) AND 0x3F),
            0x80 OR (byte_of r AND 0x3F)])"

definition bytes_of :: "string \<Rightarrow> byte list" where
  "bytes_of s = map of_char s"

definition string_of_bytes :: "byte list \<Rightarrow> string" where
  "string_of_bytes bs = map (\<lambda>b. char_of (unat b)) bs"

definition string_of_rune :: "rune \<Rightarrow> string" where
  "string_of_rune r = string_of_bytes (EncodeRune r)"

subsection \<open>EnumChars\<close>

text \<open>
  The inner loop: the first option equal to \<^verbatim>\<open>rs\<close> is appended to \<^verbatim>\<open>strs\<close> and the
  loop breaks.
\<close>

fun match_option :: "string list \<Rightarrow> string \<Rightarrow> string list \<Rightarrow> string list" where
  "match_option [] rs strs = strs"
| "match_option (x # options) rs strs =
     (if x = rs then strs @ [x] else match_option options rs strs)"

fun EnumChars_loop :: "rune list \<Rightarrow> string list \<Rightarrow> string list \<Rightarrow> string list" where
  "EnumChars_loop [] options strs = strs"
| "EnumChars_loop (r # rs) options strs =
     EnumChars_loop rs options (match_option options (string_of_rune r) strs)"

definition EnumChars :: "int \<Rightarrow> string \<Rightarrow> string list \<Rightarrow> parser \<Rightarrow> string list \<times> parser" where
  "EnumChars i context options p =
     (case String i context p of (s, p1) \<Rightarrow>
        if err p1 \<noteq> None \<or> s = '''' then ([], p1)
        else let strs = EnumChars_loop (range_runes (bytes_of s)) options [] in
          if length strs \<noteq> length s then ([], SetErr context s p1)
          else (strs, p1))"

subsection \<open>Numbers\<close>

text \<open>
  \<^verbatim>\<open>strconv.ParseInt(s, 10, 64)\<close> of Go's standard library, at the base and bit size
  the accessor passes. It returns a value and an error; the error is a syntax error or
  a range error. \<^verbatim>\<open>ParseUint\<close> reads the digits into a \<^verbatim>\<open>uint64\<close> and stops at the
  first byte that is no digit (syntax error, value 0) or at the first overflow (range
  error, value \<^verbatim>\<open>1<<64 - 1\<close>), whichever comes first.
\<close>

datatype NumError = ErrSyntax | ErrRange

definition lower :: "byte \<Rightarrow> byte" where
  "lower c = c OR 0x20"

definition uint_cutoff :: "64 word" where
  "uint_cutoff = 0xFFFFFFFFFFFFFFFF div 10 + 1"

definition maxVal :: "64 word" where
  "maxVal = push_bit 64 1 - 1"

fun ParseUint_loop :: "byte list \<Rightarrow> 64 word \<Rightarrow> 64 word \<times> NumError option" where
  "ParseUint_loop [] n = (n, None)"
| "ParseUint_loop (c # cs) n =
     (if 0x30 \<le> c \<and> c \<le> 0x39 \<or> 0x61 \<le> lower c \<and> lower c \<le> 0x7A then
        (let d = (if 0x30 \<le> c \<and> c \<le> 0x39 then c - 0x30 else lower c - 0x61 + 10) in
         if d \<ge> 10 then (0, Some ErrSyntax)
         else if n \<ge> uint_cutoff then (maxVal, Some ErrRange)
         else
           let n10 = n * 10; n1 = n10 + ucast d in
           if n1 < n10 \<or> n1 > maxVal then (maxVal, Some ErrRange)
           else ParseUint_loop cs n1)
      else (0, Some ErrSyntax))"

definition ParseUint :: "string \<Rightarrow> 64 word \<times> NumError option" where
  "ParseUint s =
     (if s = '''' then (0, Some ErrSyntax) else ParseUint_loop (bytes_of s) 0)"

definition int_cutoff :: "64 word" where
  "int_cutoff = push_bit 63 1"

definition ParseInt :: "string \<Rightarrow> 64 word \<times> NumError option" where
  "ParseInt s =
     (if s = '''' then (0, Some ErrSyntax)
      else
        let neg = (hd s = CHR ''-'');
            s1 = (if hd s = CHR ''+'' \<or> hd s = CHR ''-'' then tl s else s)
        in case ParseUint s1 of (un, e) \<Rightarrow>
          if e \<noteq> None \<and> e \<noteq> Some ErrRange then (0, e)
          else if \<not> neg \<and> un \<ge> int_cutoff then (int_cutoff - 1, Some ErrRange)
          else if neg \<and> un > int_cutoff then (- int_cutoff, Some ErrRange)
          else (if neg then - un else un, None))"

text \<open>The result is an \<^verbatim>\<open>int64\<close>: the word read as two's complement by \<^const>\<open>sint\<close>.\<close>

definition Int64 :: "int \<Rightarrow> string \<Rightarrow> parser \<Rightarrow> 64 word \<times> parser" where
  "Int64 i context p =
     (case String i context p of (s, p1) \<Rightarrow>
        if err p1 \<noteq> None then (0, p1)
        else if s = '''' then (0, p1)
        else case ParseInt s of (v, e) \<Rightarrow>
          (v, if e \<noteq> None then SetErr context s p1 else p1))"

text \<open>
  \<^verbatim>\<open>strconv.ParseFloat\<close> and the type \<^verbatim>\<open>float64\<close> are taken as parameters: the
  conversion is any function from the field to a value and an optional error, and the
  value type is any type with a zero.
\<close>

definition Float64 ::
  "(string \<Rightarrow> 'f \<times> 'e option) \<Rightarrow> int \<Rightarrow> string \<Rightarrow> parser \<Rightarrow> ('f::zero) \<times> parser" where
  "Float64 ParseFloat i context p =
     (case String i context p of (s, p1) \<Rightarrow>
        if err p1 \<noteq> None then (0, p1)
        else if s = '''' then (0, p1)
        else case ParseFloat s of (v, e) \<Rightarrow>
          (v, if e \<noteq> None then SetErr context s p1 else p1))"

subsection \<open>Time, date and coordinates\<close>

text \<open>
  \<^verbatim>\<open>ParseTime\<close>, \<^verbatim>\<open>ParseDate\<close> and \<^verbatim>\<open>ParseLatLong\<close> and the types \<^verbatim>\<open>Time\<close> and
  \<^verbatim>\<open>Date\<close> are declared outside parser.go. The parsers are parameters, each
  returning a value and an optional error; the zero structs \<^verbatim>\<open>Time{}\<close> and
  \<^verbatim>\<open>Date{}\<close> are parameters too.
\<close>

definition Time ::
  "(string \<Rightarrow> 't \<times> 'e option) \<Rightarrow> 't \<Rightarrow> int \<Rightarrow> string \<Rightarrow> parser \<Rightarrow> 't \<times> parser" where
  "Time ParseTime zeroTime i context p =
     (case String i context p of (s, p1) \<Rightarrow>
        if err p1 \<noteq> None then (zeroTime, p1)
        else case ParseTime s of (v, e) \<Rightarrow>
          (v, if e \<noteq> None then SetErr context s p1 else p1))"

definition Date ::
  "(string \<Rightarrow> 'd \<times> 'e option) \<Rightarrow> 'd \<Rightarrow> int \<Rightarrow> string \<Rightarrow> parser \<Rightarrow> 'd \<times> parser" where
  "Date ParseDate zeroDate i context p =
     (case String i context p of (s, p1) \<Rightarrow>
        if err p1 \<noteq> None then (zeroDate, p1)
        else case ParseDate s of (v, e) \<Rightarrow>
          (v, if e \<noteq> None then SetErr context s p1 else p1))"

text \<open>The error of \<^verbatim>\<open>ParseLatLong\<close> is its message, which \<^verbatim>\<open>err.Error()\<close> reads.\<close>

definition LatLong ::
  "(string \<Rightarrow> 'f \<times> string option) \<Rightarrow> int \<Rightarrow> int \<Rightarrow> string \<Rightarrow> parser \<Rightarrow> ('f::zero) \<times> parser" where
  "LatLong ParseLatLong i j context p =
     (case String i context p of (a, p1) \<Rightarrow>
      case String j context p1 of (b, p2) \<Rightarrow>
        if err p2 \<noteq> None then (0, p2)
        else case ParseLatLong (a @ '' '' @ b) of (v, e) \<Rightarrow>
          (v, case e of None \<Rightarrow> p2 | Some msg \<Rightarrow> SetErr context msg p2))"

subsection \<open>The armour decoder\<close>

text \<open>\<^verbatim>\<open>d := v - 48; if d > 40 { d -= 8 }\<close>\<close>

definition armour_value :: "byte \<Rightarrow> byte" where
  "armour_value v = (let d = v - 48 in if d > 40 then d - 8 else d)"

text \<open>
  \<^verbatim>\<open>for i := 5; i >= 0 && resultIndex < len(result); i-- { ... }\<close> on the state
  \<^verbatim>\<open>(result, resultIndex)\<close>.
\<close>

function emit_bits :: "byte \<Rightarrow> int \<Rightarrow> byte list \<Rightarrow> nat \<Rightarrow> byte list \<times> nat" where
  "emit_bits d i result resultIndex =
     (if i \<ge> 0 \<and> resultIndex < length result
      then emit_bits d (i - 1) (result[resultIndex := drop_bit (nat i) d AND 1])
             (resultIndex + 1)
      else (result, resultIndex))"
  by pat_completeness auto
termination
  by (relation "measure (\<lambda>(d, i, result, resultIndex). nat (i + 1))") auto

declare emit_bits.simps [simp del]

text \<open>
  \<^verbatim>\<open>for _, v := range payload { ... }\<close> over the bytes still to read; \<^term>\<open>None\<close>
  is the early return at a byte outside [48, 120).
\<close>

fun decode_loop :: "byte list \<Rightarrow> byte list \<Rightarrow> nat \<Rightarrow> byte list option" where
  "decode_loop [] result resultIndex = Some result"
| "decode_loop (v # payload) result resultIndex =
     (if v < 48 \<or> v \<ge> 120 then None
      else case emit_bits (armour_value v) 5 result resultIndex of
        (result', resultIndex') \<Rightarrow> decode_loop payload result' resultIndex')"

text \<open>The result \<^verbatim>\<open>nil\<close> is \<^term>\<open>None\<close>; a slice, also the empty one, is \<^term>\<open>Some bits\<close>.\<close>

definition SixBitASCIIArmour ::
  "int \<Rightarrow> int \<Rightarrow> string \<Rightarrow> parser \<Rightarrow> byte list option \<times> parser" where
  "SixBitASCIIArmour i fillBits context p =
     (if err p \<noteq> None then (None, p)
      else if fillBits < 0 \<or> fillBits \<ge> 6 then (None, SetErr context ''fill bits'' p)
      else case String i ''encoded payload'' p of (s, p1) \<Rightarrow>
        let payload = bytes_of s;
            numBits = int (length payload) * 6 - fillBits
        in if numBits < 0 then (None, SetErr context ''num bits'' p1)
           else case decode_loop payload (replicate (nat numBits) 0) 0 of
                  None \<Rightarrow> (None, SetErr context ''data byte'' p1)
                | Some result \<Rightarrow> (Some result, p1))"

text \<open>The test of the decoding loop on one byte, and the bit the decoder owes at position \<open>k\<close>.\<close>

definition valid_byte :: "byte \<Rightarrow> bool" where
  "valid_byte v = (\<not> (v < 48 \<or> v \<ge> 120))"

definition bit_at :: "byte list \<Rightarrow> nat \<Rightarrow> byte" where
  "bit_at vs k = drop_bit (5 - k mod 6) (armour_value (vs ! (k div 6))) AND 1"

text \<open>
  The reading of a decimal literal, to state what the conversion computes: a digit is a
  byte from 48 to 57, \<open>decimal n cs\<close> is the number read from the digits \<open>cs\<close> after
  the value \<open>n\<close>, and \<open>digits\<close> holds of a non-empty string of digits.
\<close>

definition is_digit :: "byte \<Rightarrow> bool" where
  "is_digit c = (48 \<le> unat c \<and> unat c \<le> 57)"

fun decimal :: "nat \<Rightarrow> byte list \<Rightarrow> nat" where
  "decimal n [] = n"
| "decimal n (c # cs) = decimal (n * 10 + (unat c - 48)) cs"

definition digits :: "string \<Rightarrow> bool" where
  "digits ds = (ds \<noteq> [] \<and> (\<forall>c \<in> set ds. is_digit (of_char c)))"

text \<open>An accessor without a latched error over given fields, for the examples.\<close>

definition ex_parser :: "string list \<Rightarrow> parser" where
  "ex_parser fs = \<lparr>Type = ''VDM'', Prefix = ''AIVDM'', Fields = fs, err = None\<rparr>"

section \<open>The error latch\<close>

lemma SetErr_latched: "err p = Some e \<Longrightarrow> SetErr context val p = p"
  by (simp add: SetErr_def)

lemma SetErr_fresh:
  "err p = None \<Longrightarrow> SetErr context val p = p\<lparr>err := Some (Errorf (Prefix p) context val)\<rparr>"
  by (simp add: SetErr_def)

text \<open>
  C2. \<^verbatim>\<open>SetErr\<close> assigns only when no error is latched: on a state whose error is
  already set, a call with any context and value returns the state as it was, so the
  first error is neither overwritten nor cleared.
\<close>

theorem SetErr_first_error_wins:
  "err p = Some e \<Longrightarrow> SetErr context val p = p \<and> err (SetErr context val p) = Some e"
  by (simp add: SetErr_def)

theorem SetErr_first_error_wins_witness:
  "err (SetErr ''speed'' ''12x'' (SetErr ''type'' ''RMC''
       \<lparr>Type = ''RMC'', Prefix = ''GPRMC'', Fields = [], err = None\<rparr>))
   = Some ''nmea: GPRMC invalid type: RMC''"
  using SetErr_first_error_wins
    [of "SetErr ''type'' ''RMC'' \<lparr>Type = ''RMC'', Prefix = ''GPRMC'', Fields = [], err = None\<rparr>"
        "''nmea: GPRMC invalid type: RMC''" "''speed''" "''12x''"]
  by (simp add: SetErr_def Errorf_def)

text \<open>
  C1. Once an error is latched, every getter returns the zero value of its result type
  (the empty string, the empty sequence, 0, the zero struct, \<^verbatim>\<open>nil\<close>) and leaves the
  accessor, and so the latched error, exactly as it was.
\<close>

theorem latched_getters_return_zero:
  "err p = Some e \<Longrightarrow>
     AssertType typ p = p
   \<and> String i context p = ('''', p)
   \<and> ListString i context p = ([], p)
   \<and> EnumString i context options p = ('''', p)
   \<and> EnumChars i context options p = ([], p)
   \<and> Int64 i context p = (0, p)
   \<and> Float64 ParseFloat i context p = (0, p)
   \<and> Time ParseTime zeroTime i context p = (zeroTime, p)
   \<and> Date ParseDate zeroDate i context p = (zeroDate, p)
   \<and> LatLong ParseLatLong i j context p = (0, p)
   \<and> SixBitASCIIArmour i fillBits context p = (None, p)
   \<and> err p = Some e"
  by (simp add: String_def AssertType_def SetErr_latched ListString_def EnumString_def
      EnumChars_def Int64_def Float64_def Time_def Date_def LatLong_def SixBitASCIIArmour_def)

theorem latched_getters_return_zero_witness:
  "AssertType ''VDO'' (SetErr ''type'' ''VDM'' (ex_parser [''1'', ''w'']))
      = SetErr ''type'' ''VDM'' (ex_parser [''1'', ''w''])
   \<and> String 0 ''a'' (SetErr ''type'' ''VDM'' (ex_parser [''1'', ''w'']))
      = ('''', SetErr ''type'' ''VDM'' (ex_parser [''1'', ''w'']))
   \<and> Int64 0 ''b'' (SetErr ''type'' ''VDM'' (ex_parser [''1'', ''w'']))
      = (0, SetErr ''type'' ''VDM'' (ex_parser [''1'', ''w'']))
   \<and> Float64 (\<lambda>s. (1 :: int, None :: unit option)) 0 ''c'' (SetErr ''type'' ''VDM'' (ex_parser [''1'', ''w'']))
      = (0, SetErr ''type'' ''VDM'' (ex_parser [''1'', ''w'']))
   \<and> SixBitASCIIArmour 1 0 ''d'' (SetErr ''type'' ''VDM'' (ex_parser [''1'', ''w'']))
      = (None, SetErr ''type'' ''VDM'' (ex_parser [''1'', ''w'']))
   \<and> err (SetErr ''type'' ''VDM'' (ex_parser [''1'', ''w''])) = Some ''nmea: AIVDM invalid type: VDM''"
  using latched_getters_return_zero
    [of "SetErr ''type'' ''VDM'' (ex_parser [''1'', ''w''])" "''nmea: AIVDM invalid type: VDM''"
        "''VDO''" 0 "''a''" "[]" "\<lambda>s. (1 :: int, None :: unit option)"
        "\<lambda>s. (1 :: int, None :: unit option)" 0 "\<lambda>s. (1 :: int, None :: unit option)" 0
        "\<lambda>s. (1 :: int, None)" 0 0]
  by (simp add: ex_parser_def SetErr_def Errorf_def String_def Int64_def Float64_def
      SixBitASCIIArmour_def AssertType_def)

section \<open>Fields by index\<close>

text \<open>
  C6. On an accessor without a latched error: \<^verbatim>\<open>String\<close> at an index in
  \<open>[0, len(fields))\<close> returns that field as it is stored, the empty string included, and
  latches nothing; \<^verbatim>\<open>String\<close> and \<^verbatim>\<open>ListString\<close> at an index below 0 or at least
  \<open>len(fields)\<close> latch the index error and return an empty result; \<^verbatim>\<open>ListString\<close> at a
  valid index returns the fields from that position to the end, in order.
\<close>

theorem String_ListString_index:
  "err p = None \<Longrightarrow>
     (0 \<le> i \<and> i < int (length (Fields p)) \<longrightarrow>
        String i context p = (Fields p ! nat i, p)
      \<and> ListString i context p = (drop (nat i) (Fields p), p)
      \<and> length (fst (ListString i context p)) = length (Fields p) - nat i
      \<and> (\<forall>k < length (Fields p) - nat i. fst (ListString i context p) ! k = Fields p ! (nat i + k)))
   \<and> (i < 0 \<or> int (length (Fields p)) \<le> i \<longrightarrow>
        String i context p
          = ('''', p\<lparr>err := Some (Errorf (Prefix p) context ''index out of range'')\<rparr>)
      \<and> ListString i context p
          = ([], p\<lparr>err := Some (Errorf (Prefix p) context ''index out of range'')\<rparr>))"
  by (auto simp: String_def ListString_def SetErr_def)

theorem String_ListString_index_witness:
  "String 1 ''f'' (ex_parser [''a'', '''', ''c'']) = ('''', ex_parser [''a'', '''', ''c''])
   \<and> ListString 1 ''f'' (ex_parser [''a'', '''', ''c'']) = (['''', ''c''], ex_parser [''a'', '''', ''c''])
   \<and> String 3 ''f'' (ex_parser [''a'', '''', ''c''])
       = ('''', \<lparr>Type = ''VDM'', Prefix = ''AIVDM'', Fields = [''a'', '''', ''c''],
                 err = Some ''nmea: AIVDM invalid f: index out of range''\<rparr>)
   \<and> ListString (- 1) ''f'' (ex_parser [''a'', '''', ''c''])
       = ([], \<lparr>Type = ''VDM'', Prefix = ''AIVDM'', Fields = [''a'', '''', ''c''],
                 err = Some ''nmea: AIVDM invalid f: index out of range''\<rparr>)"
  using String_ListString_index [of "ex_parser [''a'', '''', ''c'']" 1 "''f''"]
    String_ListString_index [of "ex_parser [''a'', '''', ''c'']" 3 "''f''"]
    String_ListString_index [of "ex_parser [''a'', '''', ''c'']" "- 1" "''f''"]
  by (simp add: ex_parser_def Errorf_def)

section \<open>The armour decoder\<close>

subsection \<open>The character mapping\<close>

text \<open>
  C3, as the code has it. For a character code from 48 to 88 the mapped value is
  \<open>code - 48\<close> (0 to 40); for a code from 89 to 119 it is \<open>code - 48 - 8\<close> (33 to 63).
  The second subtraction is applied when \<open>code - 48 > 40\<close>, so code 88 maps to 40.
\<close>

theorem armour_value_mapping:
  "(48 \<le> c \<and> c \<le> 88 \<longrightarrow> unat (armour_value (of_nat c)) = c - 48)
   \<and> (89 \<le> c \<and> c \<le> 119 \<longrightarrow> unat (armour_value (of_nat c)) = c - 48 - 8)"
  unfolding armour_value_def Let_def
  by (auto simp: word_less_nat_alt word_le_nat_alt unat_sub_if' unat_of_nat take_bit_nat_eq_self)

theorem armour_value_mapping_witness:
  "unat (armour_value (of_nat 87)) = 39 \<and> unat (armour_value (of_nat 88)) = 40
   \<and> unat (armour_value (of_nat 89)) = 33 \<and> unat (armour_value (of_nat 119)) = 63"
  using armour_value_mapping [of 87] armour_value_mapping [of 88]
    armour_value_mapping [of 89] armour_value_mapping [of 119]
  by simp

text \<open>The claim as written gives code 88 the value \<open>88 - 48 - 8 = 32\<close>; the code gives 40.\<close>

theorem armour_value_88_counterexample:
  "unat (armour_value (of_nat 88)) \<noteq> 88 - 48 - 8"
  by (simp add: armour_value_def)

subsection \<open>The inner loop\<close>

lemma emit_bits_length: "length (fst (emit_bits d i r ri)) = length r"
proof (induction d i r ri rule: emit_bits.induct)
  case (1 d i result resultIndex)
  then show ?case
    by (subst emit_bits.simps) simp
qed

lemma emit_bits_index:
  "- 1 \<le> i \<Longrightarrow> ri \<le> length r \<Longrightarrow>
   snd (emit_bits d i r ri) = min (ri + nat (i + 1)) (length r)"
proof (induction d i r ri rule: emit_bits.induct)
  case (1 d i result resultIndex)
  show ?case
  proof (cases "i \<ge> 0 \<and> resultIndex < length result")
    case True
    then have "snd (emit_bits d (i - 1) (result[resultIndex := drop_bit (nat i) d AND 1]) (resultIndex + 1))
      = min (resultIndex + 1 + nat (i - 1 + 1)) (length result)"
      using "1.IH" by simp
    with True show ?thesis
      by (subst emit_bits.simps) (simp add: nat_add_distrib)
  next
    case False
    with "1.prems" show ?thesis
      by (subst emit_bits.simps) auto
  qed
qed

lemma emit_bits_prefix:
  "k < ri \<Longrightarrow> fst (emit_bits d i r ri) ! k = r ! k"
proof (induction d i r ri rule: emit_bits.induct)
  case (1 d i result resultIndex)
  show ?case
  proof (cases "i \<ge> 0 \<and> resultIndex < length result")
    case True
    with "1.IH" "1.prems" show ?thesis
      by (subst emit_bits.simps) simp
  next
    case False
    then show ?thesis
      by (subst emit_bits.simps) auto
  qed
qed

lemma emit_bits_written:
  "ri \<le> k \<Longrightarrow> k < length r \<Longrightarrow> k \<le> ri + nat i \<Longrightarrow> 0 \<le> i \<Longrightarrow>
   fst (emit_bits d i r ri) ! k = drop_bit (nat i - (k - ri)) d AND 1"
proof (induction d i r ri rule: emit_bits.induct)
  case (1 d i result resultIndex)
  from "1.prems" have cond: "i \<ge> 0 \<and> resultIndex < length result"
    by simp
  let ?r = "result[resultIndex := drop_bit (nat i) d AND 1]"
  have unfold: "emit_bits d i result resultIndex = emit_bits d (i - 1) ?r (resultIndex + 1)"
    using cond by (subst emit_bits.simps) simp
  show ?case
  proof (cases "k = resultIndex")
    case True
    then have "fst (emit_bits d (i - 1) ?r (resultIndex + 1)) ! k = ?r ! k"
      by (simp add: emit_bits_prefix)
    with True cond show ?thesis
      by (simp add: unfold)
  next
    case False
    with "1.prems" have k: "resultIndex + 1 \<le> k" "k \<le> resultIndex + 1 + nat (i - 1)" "0 \<le> i - 1"
      by auto
    have "fst (emit_bits d (i - 1) ?r (resultIndex + 1)) ! k
        = drop_bit (nat (i - 1) - (k - (resultIndex + 1))) d AND 1"
      using "1.IH" [OF cond k(1) _ k(2) k(3)] "1.prems" by simp
    moreover have "nat (i - 1) - (k - (resultIndex + 1)) = nat i - (k - resultIndex)"
      using k by auto
    ultimately show ?thesis
      by (simp add: unfold)
  qed
qed


lemma decode_loop_invalid:
  "\<exists>v \<in> set vs. \<not> valid_byte v \<Longrightarrow> decode_loop vs r ri = None"
proof (induction vs arbitrary: r ri)
  case Nil
  then show ?case by simp
next
  case (Cons v vs)
  show ?case
  proof (cases "valid_byte v")
    case True
    with Cons.prems have "\<exists>v \<in> set vs. \<not> valid_byte v"
      by auto
    then have "\<And>r ri. decode_loop vs r ri = None"
      by (rule Cons.IH)
    with True show ?thesis
      by (simp add: valid_byte_def split: prod.splits)
  next
    case False
    then show ?thesis
      by (simp add: valid_byte_def)
  qed
qed

lemma decode_loop_valid:
  "\<forall>v \<in> set vs. valid_byte v \<Longrightarrow> ri \<le> length r \<Longrightarrow>
   \<exists>r'. decode_loop vs r ri = Some r' \<and> length r' = length r
      \<and> (\<forall>k < ri. r' ! k = r ! k)
      \<and> (\<forall>k. ri \<le> k \<and> k < length r \<and> k < ri + 6 * length vs \<longrightarrow> r' ! k = bit_at vs (k - ri))"
proof (induction vs arbitrary: r ri)
  case Nil
  then show ?case by auto
next
  case (Cons v vs)
  obtain r1 ri1 where e: "emit_bits (armour_value v) 5 r ri = (r1, ri1)"
    by (cases "emit_bits (armour_value v) 5 r ri")
  have len1: "length r1 = length r"
    using emit_bits_length [of "armour_value v" 5 r ri] e by simp
  have ri1: "ri1 = min (ri + 6) (length r)"
    using emit_bits_index [of 5 ri r "armour_value v"] e Cons.prems(2) by simp
  have pre1: "\<And>k. k < ri \<Longrightarrow> r1 ! k = r ! k"
    using emit_bits_prefix [of _ ri "armour_value v" 5 r] e by simp
  have wr1: "\<And>k. ri \<le> k \<Longrightarrow> k < length r \<Longrightarrow> k < ri + 6 \<Longrightarrow>
      r1 ! k = drop_bit (5 - (k - ri)) (armour_value v) AND 1"
    using emit_bits_written [of ri _ r 5 "armour_value v"] e by simp
  have "\<forall>v \<in> set vs. valid_byte v" and v: "valid_byte v"
    using Cons.prems(1) by auto
  moreover have "ri1 \<le> length r1"
    using ri1 len1 by simp
  ultimately obtain r' where r': "decode_loop vs r1 ri1 = Some r'" "length r' = length r1"
      "\<forall>k < ri1. r' ! k = r1 ! k"
      "\<forall>k. ri1 \<le> k \<and> k < length r1 \<and> k < ri1 + 6 * length vs \<longrightarrow> r' ! k = bit_at vs (k - ri1)"
    using Cons.IH [of ri1 r1] by blast
  have dl: "decode_loop (v # vs) r ri = Some r'"
    using v e r'(1) by (simp add: valid_byte_def)
  have A: "\<forall>k < ri. r' ! k = r ! k"
  proof (intro allI impI)
    fix k assume k: "k < ri"
    then have "k < ri1" using ri1 Cons.prems(2) by simp
    then show "r' ! k = r ! k" using r'(3) pre1 [OF k] by simp
  qed
  have B: "\<forall>k. ri \<le> k \<and> k < length r \<and> k < ri + 6 * length (v # vs)
      \<longrightarrow> r' ! k = bit_at (v # vs) (k - ri)"
  proof (intro allI impI)
    fix k assume k: "ri \<le> k \<and> k < length r \<and> k < ri + 6 * length (v # vs)"
    show "r' ! k = bit_at (v # vs) (k - ri)"
    proof (cases "k < ri + 6")
      case True
      then have "k < ri1" using ri1 k by simp
      then have "r' ! k = r1 ! k" using r'(3) by simp
      also have "\<dots> = drop_bit (5 - (k - ri)) (armour_value v) AND 1"
        using wr1 k True by simp
      also have "\<dots> = bit_at (v # vs) (k - ri)"
        using True k by (simp add: bit_at_def)
      finally show ?thesis .
    next
      case False
      then have ri1': "ri1 = ri + 6" using ri1 k by simp
      then have "r' ! k = bit_at vs (k - ri1)"
        using r'(4) k False len1 by simp
      moreover have "k - ri = (k - ri1) + 6"
        using False ri1' by simp
      then have "(k - ri) mod 6 = (k - ri1) mod 6" "(k - ri) div 6 = Suc ((k - ri1) div 6)"
        by simp_all
      ultimately show ?thesis
        by (simp add: bit_at_def)
    qed
  qed
  have "length r' = length r"
    using r'(2) len1 by simp
  with dl A B show ?case
    by blast
qed

subsection \<open>The decoder\<close>

lemma unat_byte_of_char: "unat (of_char c :: byte) = of_char c"
proof -
  have "(of_char c :: byte) = of_nat (of_char c)"
    by (simp add: of_nat_of_char)
  then have "unat (of_char c :: byte) = unat (of_nat (of_char c :: nat) :: byte)"
    by simp
  also have "\<dots> = of_char c"
    by (simp add: unat_of_nat take_bit_nat_eq_self)
  finally show ?thesis .
qed

lemma valid_byte_of_char:
  "valid_byte (of_char c) \<longleftrightarrow> 48 \<le> (of_char c :: nat) \<and> (of_char c :: nat) < 120"
  by (auto simp: valid_byte_def word_less_nat_alt word_le_nat_alt unat_byte_of_char)

lemma bit_at_of_bool:
  "bit_at vs k = of_bool (bit (armour_value (vs ! (k div 6))) (5 - k mod 6))"
  by (simp add: bit_at_def and_one_eq mod_2_eq_odd bit_iff_odd_drop_bit)

lemma String_valid:
  "err p = None \<Longrightarrow> 0 \<le> i \<Longrightarrow> i < int (length (Fields p)) \<Longrightarrow>
   String i context p = (Fields p ! nat i, p)"
  by (simp add: String_def)

lemma String_invalid:
  "err p = None \<Longrightarrow> i < 0 \<or> int (length (Fields p)) \<le> i \<Longrightarrow>
   String i context p = ('''', p\<lparr>err := Some (Errorf (Prefix p) context ''index out of range'')\<rparr>)"
  by (auto simp: String_def SetErr_def)

lemma length_bytes_of: "length (bytes_of s) = length s"
  by (simp add: bytes_of_def)

lemma SixBit_valid_fill:
  "err p = None \<Longrightarrow> 0 \<le> i \<Longrightarrow> i < int (length (Fields p)) \<Longrightarrow> 0 \<le> fillBits \<Longrightarrow> fillBits < 6 \<Longrightarrow>
   int (length (Fields p ! nat i)) * 6 - fillBits \<ge> 0 \<Longrightarrow>
   SixBitASCIIArmour i fillBits context p =
     (case decode_loop (bytes_of (Fields p ! nat i))
             (replicate (nat (int (length (Fields p ! nat i)) * 6 - fillBits)) 0) 0 of
        None \<Rightarrow> (None, p\<lparr>err := Some (Errorf (Prefix p) context ''data byte'')\<rparr>)
      | Some result \<Rightarrow> (Some result, p))"
  by (simp add: SixBitASCIIArmour_def String_valid SetErr_def Let_def length_bytes_of split: option.split)

lemma SixBit_decodes:
  assumes "err p = None" "0 \<le> i" "i < int (length (Fields p))"
    and "\<forall>c \<in> set (Fields p ! nat i). 48 \<le> (of_char c :: nat) \<and> (of_char c :: nat) < 120"
    and "0 \<le> fillBits" "fillBits < 6"
    and "0 \<le> int (length (Fields p ! nat i)) * 6 - fillBits"
  shows "\<exists>bits. SixBitASCIIArmour i fillBits context p = (Some bits, p)
      \<and> int (length bits) = int (length (Fields p ! nat i)) * 6 - fillBits
      \<and> (\<forall>k < length bits. bits ! k = bit_at (bytes_of (Fields p ! nat i)) k)"
proof -
  let ?s = "Fields p ! nat i"
  let ?n = "nat (int (length ?s) * 6 - fillBits)"
  have "\<forall>v \<in> set (bytes_of ?s). valid_byte v"
    using assms(4) by (auto simp: bytes_of_def valid_byte_of_char)
  then obtain r' where r': "decode_loop (bytes_of ?s) (replicate ?n 0) 0 = Some r'"
      "length r' = length (replicate ?n (0::byte))"
      "\<forall>k. 0 \<le> k \<and> k < length (replicate ?n (0::byte)) \<and> k < 0 + 6 * length (bytes_of ?s)
          \<longrightarrow> r' ! k = bit_at (bytes_of ?s) (k - 0)"
    using decode_loop_valid [of "bytes_of ?s" 0 "replicate ?n 0"] by auto
  have len: "length r' = ?n"
    using r'(2) by simp
  have "?n \<le> 6 * length (bytes_of ?s)"
    using assms(5) by (simp add: bytes_of_def)
  then have "\<forall>k < length r'. r' ! k = bit_at (bytes_of ?s) k"
    using r'(3) len by simp
  moreover have "SixBitASCIIArmour i fillBits context p = (Some r', p)"
    using SixBit_valid_fill [OF assms(1,2,3,5,6,7)] r'(1) by simp
  moreover have "int (length r') = int (length ?s) * 6 - fillBits"
    using len assms(7) by simp
  ultimately show ?thesis
    by blast
qed

text \<open>
  C4. On an accessor without a latched error, for a payload field at a valid index whose
  characters all have codes in [48, 120), and \<open>fillBits\<close> in [0, 6) with
  \<open>len(payload) * 6 - fillBits \<ge> 0\<close>, \<^verbatim>\<open>SixBitASCIIArmour\<close> returns a sequence of exactly
  \<open>len(payload) * 6 - fillBits\<close> elements, each 0 or 1, and leaves the accessor as it
  was; output bit \<open>k\<close> is bit \<open>5 - k mod 6\<close> of the mapped value of payload character
  \<open>k div 6\<close>: most significant bit first, cut at the computed length.
\<close>

theorem SixBitASCIIArmour_bits:
  "err p = None \<Longrightarrow> 0 \<le> i \<Longrightarrow> i < int (length (Fields p)) \<Longrightarrow>
   \<forall>c \<in> set (Fields p ! nat i). 48 \<le> (of_char c :: nat) \<and> (of_char c :: nat) < 120 \<Longrightarrow>
   0 \<le> fillBits \<Longrightarrow> fillBits < 6 \<Longrightarrow>
   0 \<le> int (length (Fields p ! nat i)) * 6 - fillBits \<Longrightarrow>
   \<exists>bits. SixBitASCIIArmour i fillBits context p = (Some bits, p)
     \<and> int (length bits) = int (length (Fields p ! nat i)) * 6 - fillBits
     \<and> (\<forall>k < length bits.
          (bits ! k = 0 \<or> bits ! k = 1)
        \<and> bits ! k = of_bool (bit (armour_value (of_char (Fields p ! nat i ! (k div 6)))) (5 - k mod 6)))"
proof -
  assume a: "err p = None" "0 \<le> i" "i < int (length (Fields p))"
    "\<forall>c \<in> set (Fields p ! nat i). 48 \<le> (of_char c :: nat) \<and> (of_char c :: nat) < 120"
    "0 \<le> fillBits" "fillBits < 6" "0 \<le> int (length (Fields p ! nat i)) * 6 - fillBits"
  let ?s = "Fields p ! nat i"
  obtain bits where b: "SixBitASCIIArmour i fillBits context p = (Some bits, p)"
      "int (length bits) = int (length ?s) * 6 - fillBits"
      "\<forall>k < length bits. bits ! k = bit_at (bytes_of ?s) k"
    using SixBit_decodes [OF a] by blast
  have "\<forall>k < length bits. (bits ! k = 0 \<or> bits ! k = 1)
        \<and> bits ! k = of_bool (bit (armour_value (of_char (?s ! (k div 6)))) (5 - k mod 6))"
  proof (intro allI impI)
    fix k assume k: "k < length bits"
    then have "int k < int (length ?s) * 6" using b(2) a(5) by linarith
    then have "k div 6 < length ?s" by (simp add: less_mult_imp_div_less mult.commute)
    then have "bytes_of ?s ! (k div 6) = of_char (?s ! (k div 6))"
      by (simp add: bytes_of_def)
    then have "bits ! k = of_bool (bit (armour_value (of_char (?s ! (k div 6)))) (5 - k mod 6))"
      using b(3) k by (simp add: bit_at_of_bool)
    then show "(bits ! k = 0 \<or> bits ! k = 1)
        \<and> bits ! k = of_bool (bit (armour_value (of_char (?s ! (k div 6)))) (5 - k mod 6))"
      by simp
  qed
  with b(1,2) show ?thesis by blast
qed


theorem SixBitASCIIArmour_bits_witness:
  "\<exists>bits. SixBitASCIIArmour 0 2 ''payload'' (ex_parser [''0Ww'']) = (Some bits, ex_parser [''0Ww''])
     \<and> int (length bits) = 16
     \<and> (\<forall>k < length bits.
          (bits ! k = 0 \<or> bits ! k = 1)
        \<and> bits ! k = of_bool (bit (armour_value (of_char (''0Ww'' ! (k div 6)))) (5 - k mod 6)))"
  using SixBitASCIIArmour_bits [of "ex_parser [''0Ww'']" 0 2 "''payload''"]
  by (simp add: ex_parser_def)

lemma String_length_invalid:
  "err p = None \<Longrightarrow> \<not> (0 \<le> i \<and> i < int (length (Fields p))) \<Longrightarrow>
   String i context p = ('''', p\<lparr>err := Some (Errorf (Prefix p) context ''index out of range'')\<rparr>)"
  by (rule String_invalid) auto

text \<open>
  C7. On an accessor without a latched error, \<^verbatim>\<open>SixBitASCIIArmour\<close> with
  \<open>fillBits < 0\<close> or \<open>fillBits \<ge> 6\<close> latches an error and returns \<^verbatim>\<open>nil\<close>; when the
  computed bit count \<open>len(payload) * 6 - fillBits\<close> is negative it latches an error and
  returns \<^verbatim>\<open>nil\<close> (the payload is then empty: either the field is empty and the error
  is the decoder's, or the index is out of range and the error is the one \<^verbatim>\<open>String\<close>
  latched). With \<open>fillBits = 2\<close> and a single valid character the result has exactly
  4 bits.
\<close>

theorem SixBitASCIIArmour_preconditions:
  "err p = None \<Longrightarrow>
     (fillBits < 0 \<or> 6 \<le> fillBits \<longrightarrow>
        SixBitASCIIArmour i fillBits context p
          = (None, p\<lparr>err := Some (Errorf (Prefix p) context ''fill bits'')\<rparr>))
   \<and> (0 \<le> fillBits \<and> fillBits < 6
        \<and> int (length (bytes_of (fst (String i ''encoded payload'' p)))) * 6 - fillBits < 0 \<longrightarrow>
        SixBitASCIIArmour i fillBits context p
          = (None, p\<lparr>err := Some (if 0 \<le> i \<and> i < int (length (Fields p))
                                   then Errorf (Prefix p) context ''num bits''
                                   else Errorf (Prefix p) ''encoded payload'' ''index out of range'')\<rparr>))
   \<and> (0 \<le> i \<and> i < int (length (Fields p)) \<and> Fields p ! nat i = [c]
        \<and> 48 \<le> (of_char c :: nat) \<and> (of_char c :: nat) < 120 \<longrightarrow>
        (\<exists>bits. SixBitASCIIArmour i 2 context p = (Some bits, p) \<and> length bits = 4))"
proof -
  assume e: "err p = None"
  have A: "fillBits < 0 \<or> 6 \<le> fillBits \<longrightarrow>
        SixBitASCIIArmour i fillBits context p
          = (None, p\<lparr>err := Some (Errorf (Prefix p) context ''fill bits'')\<rparr>)"
    using e by (auto simp: SixBitASCIIArmour_def SetErr_def)
  have B: "0 \<le> fillBits \<and> fillBits < 6
        \<and> int (length (bytes_of (fst (String i ''encoded payload'' p)))) * 6 - fillBits < 0 \<longrightarrow>
        SixBitASCIIArmour i fillBits context p
          = (None, p\<lparr>err := Some (if 0 \<le> i \<and> i < int (length (Fields p))
                                   then Errorf (Prefix p) context ''num bits''
                                   else Errorf (Prefix p) ''encoded payload'' ''index out of range'')\<rparr>)"
  proof (cases "0 \<le> i \<and> i < int (length (Fields p))")
    case True
    then show ?thesis
      using e by (simp add: SixBitASCIIArmour_def String_valid SetErr_def Let_def)
  next
    case False
    then have "String i ''encoded payload'' p
        = ('''', p\<lparr>err := Some (Errorf (Prefix p) ''encoded payload'' ''index out of range'')\<rparr>)"
      using e by (rule String_length_invalid [rotated])
    with False e show ?thesis
      by (auto simp: SixBitASCIIArmour_def SetErr_def Let_def)
  qed
  have C: "0 \<le> i \<and> i < int (length (Fields p)) \<and> Fields p ! nat i = [c]
        \<and> 48 \<le> (of_char c :: nat) \<and> (of_char c :: nat) < 120 \<longrightarrow>
        (\<exists>bits. SixBitASCIIArmour i 2 context p = (Some bits, p) \<and> length bits = 4)"
  proof
    assume h: "0 \<le> i \<and> i < int (length (Fields p)) \<and> Fields p ! nat i = [c]
        \<and> 48 \<le> (of_char c :: nat) \<and> (of_char c :: nat) < 120"
    then have "\<exists>bits. SixBitASCIIArmour i 2 context p = (Some bits, p)
      \<and> int (length bits) = int (length (Fields p ! nat i)) * 6 - 2
      \<and> (\<forall>k < length bits. bits ! k = bit_at (bytes_of (Fields p ! nat i)) k)"
      using e by (intro SixBit_decodes) simp_all
    with h show "\<exists>bits. SixBitASCIIArmour i 2 context p = (Some bits, p) \<and> length bits = 4"
      by auto
  qed
  from A B C show ?thesis
    by blast
qed

theorem SixBitASCIIArmour_preconditions_witness:
  "SixBitASCIIArmour 0 6 ''payload'' (ex_parser [''w''])
     = (None, \<lparr>Type = ''VDM'', Prefix = ''AIVDM'', Fields = [''w''],
               err = Some ''nmea: AIVDM invalid payload: fill bits''\<rparr>)
   \<and> SixBitASCIIArmour 0 (- 1) ''payload'' (ex_parser [''w''])
     = (None, \<lparr>Type = ''VDM'', Prefix = ''AIVDM'', Fields = [''w''],
               err = Some ''nmea: AIVDM invalid payload: fill bits''\<rparr>)
   \<and> SixBitASCIIArmour 0 3 ''payload'' (ex_parser [''''])
     = (None, \<lparr>Type = ''VDM'', Prefix = ''AIVDM'', Fields = [''''],
               err = Some ''nmea: AIVDM invalid payload: num bits''\<rparr>)
   \<and> (\<exists>bits. SixBitASCIIArmour 0 2 ''payload'' (ex_parser [''w'']) = (Some bits, ex_parser [''w''])
         \<and> length bits = 4)"
  using SixBitASCIIArmour_preconditions [of "ex_parser [''w'']" 6 0 "''payload''" "CHR ''w''"]
    SixBitASCIIArmour_preconditions [of "ex_parser [''w'']" "- 1" 0 "''payload''" "CHR ''w''"]
    SixBitASCIIArmour_preconditions [of "ex_parser ['''']" 3 0 "''payload''" "CHR ''w''"]
  by (simp add: ex_parser_def Errorf_def String_def bytes_of_def)

text \<open>
  C8. On an accessor without a latched error, if any character of the payload field has a
  code outside [48, 120), \<^verbatim>\<open>SixBitASCIIArmour\<close> latches a decode error and returns
  \<^verbatim>\<open>nil\<close>, wherever the character stands in the payload: nothing of the result is
  returned. The error names the data byte when \<open>fillBits\<close> is in [0, 6), and the fill
  bits otherwise (that check comes first).
\<close>

theorem SixBitASCIIArmour_invalid_byte:
  "err p = None \<Longrightarrow> 0 \<le> i \<Longrightarrow> i < int (length (Fields p)) \<Longrightarrow>
   \<exists>c \<in> set (Fields p ! nat i). (of_char c :: nat) < 48 \<or> 120 \<le> (of_char c :: nat) \<Longrightarrow>
   SixBitASCIIArmour i fillBits context p
     = (None, p\<lparr>err := Some (Errorf (Prefix p) context
                 (if 0 \<le> fillBits \<and> fillBits < 6 then ''data byte'' else ''fill bits''))\<rparr>)"
proof -
  assume a: "err p = None" "0 \<le> i" "i < int (length (Fields p))"
    "\<exists>c \<in> set (Fields p ! nat i). (of_char c :: nat) < 48 \<or> 120 \<le> (of_char c :: nat)"
  let ?s = "Fields p ! nat i"
  show ?thesis
  proof (cases "0 \<le> fillBits \<and> fillBits < 6")
    case True
    obtain c where c: "c \<in> set ?s" "(of_char c :: nat) < 48 \<or> 120 \<le> (of_char c :: nat)"
      using a(4) by blast
    from c(2) have "\<not> valid_byte (of_char c)"
      by (auto simp: valid_byte_of_char)
    moreover from c(1) have "of_char c \<in> set (bytes_of ?s)"
      by (simp add: bytes_of_def)
    ultimately have "\<exists>v \<in> set (bytes_of ?s). \<not> valid_byte v"
      by blast
    then have dl: "\<And>r. decode_loop (bytes_of ?s) r 0 = None"
      by (rule decode_loop_invalid)
    have "?s \<noteq> []"
      using a(4) by auto
    then have "1 \<le> int (length ?s)"
      by (cases ?s) simp_all
    then have "0 \<le> int (length ?s) * 6 - fillBits"
      using True by linarith
    then show ?thesis
      using SixBit_valid_fill [OF a(1,2,3)] True dl by simp
  next
    case False
    then show ?thesis
      using a(1) by (auto simp: SixBitASCIIArmour_def SetErr_def)
  qed
qed

theorem SixBitASCIIArmour_invalid_byte_witness:
  "SixBitASCIIArmour 0 0 ''payload'' (ex_parser [''wx''])
     = (None, \<lparr>Type = ''VDM'', Prefix = ''AIVDM'', Fields = [''wx''],
               err = Some ''nmea: AIVDM invalid payload: data byte''\<rparr>)
   \<and> SixBitASCIIArmour 0 0 ''payload'' (ex_parser [''w/''])
     = (None, \<lparr>Type = ''VDM'', Prefix = ''AIVDM'', Fields = [''w/''],
               err = Some ''nmea: AIVDM invalid payload: data byte''\<rparr>)"
  using SixBitASCIIArmour_invalid_byte [of "ex_parser [''wx'']" 0 0 "''payload''"]
    SixBitASCIIArmour_invalid_byte [of "ex_parser [''w/'']" 0 0 "''payload''"]
  by (simp add: ex_parser_def Errorf_def)

section \<open>Numbers\<close>

subsection \<open>The integer conversion on decimal literals\<close>

lemma uint_cutoff_val: "unat uint_cutoff = 1844674407370955162"
  by (simp add: uint_cutoff_def)

lemma maxVal_val: "unat maxVal = 18446744073709551615"
  by (simp add: maxVal_def)

lemma int_cutoff_val: "unat int_cutoff = 9223372036854775808"
  by (simp add: int_cutoff_def)

lemma decimal_ge: "n \<le> decimal n cs"
proof (induction cs arbitrary: n)
  case Nil
  show ?case by simp
next
  case (Cons c cs)
  have "n \<le> n * 10 + (unat c - 48)" by simp
  also have "\<dots> \<le> decimal (n * 10 + (unat c - 48)) cs" by (rule Cons.IH)
  finally show ?case by simp
qed

lemma unat64_lt: "unat (n :: 64 word) < 2 ^ 64"
  by (rule order_less_le_trans [OF unsigned_less]) simp

lemma unat_ucast_byte: "unat (ucast (b :: byte) :: 64 word) = unat b"
proof -
  have "unat b < 2 ^ 8"
    by (rule order_less_le_trans [OF unsigned_less]) simp
  then have "unat b < 2 ^ 64"
    by simp
  then show ?thesis
    by (simp add: unsigned_ucast_eq take_bit_nat_eq_self)
qed

lemma unat_of_nat64: "m < 2 ^ 64 \<Longrightarrow> unat (of_nat m :: 64 word) = m"
  by (simp add: unat_of_nat take_bit_nat_eq_self)

lemma digit_cond:
  assumes "is_digit c"
  shows "0x30 \<le> c \<and> c \<le> 0x39" and "unat (c - 0x30) = unat c - 48" and "\<not> (c - 0x30 \<ge> 10)"
proof -
  show a: "0x30 \<le> c \<and> c \<le> 0x39"
    using assms by (simp add: is_digit_def word_le_nat_alt)
  show b: "unat (c - 0x30) = unat c - 48"
    using a by (simp add: unat_sub)
  show "\<not> (c - 0x30 \<ge> 10)"
    using assms b by (simp add: word_le_nat_alt is_digit_def, arith)
qed

lemma ParseUint_loop_digit:
  assumes "is_digit c"
  shows "ParseUint_loop (c # cs) n =
     (if unat n * 10 + (unat c - 48) < 2 ^ 64
      then ParseUint_loop cs (of_nat (unat n * 10 + (unat c - 48)))
      else (maxVal, Some ErrRange))"
proof -
  let ?d = "unat c - 48"
  have d9: "?d \<le> 9" using assms by (simp add: is_digit_def, arith)
  have ud: "unat (ucast (c - 0x30) :: 64 word) = ?d"
    using digit_cond(2) [OF assms] by (simp add: unat_ucast_byte)
  note dc = digit_cond [OF assms]
  show ?thesis
  proof (cases "n \<ge> uint_cutoff")
    case True
    then have "unat n \<ge> 1844674407370955162"
      by (simp add: word_le_nat_alt uint_cutoff_val)
    then have "\<not> unat n * 10 + ?d < 2 ^ 64" by simp
    with True dc show ?thesis by (simp add: Let_def)
  next
    case False
    then have n: "unat n < 1844674407370955162"
      by (simp add: word_le_nat_alt uint_cutoff_val)
    then have n10: "unat (n * 10) = unat n * 10"
      by (simp add: unat_word_ariths)
    have sum: "unat (n * 10 + ucast (c - 0x30)) = (unat n * 10 + ?d) mod 2 ^ 64"
      by (simp add: unat_word_ariths(1) [of "n * 10"] n10 ud)
    show ?thesis
    proof (cases "unat n * 10 + ?d < 2 ^ 64")
      case True
      then have eq: "unat (n * 10 + ucast (c - 0x30)) = unat n * 10 + ?d"
        using sum by simp
      then have "\<not> (n * 10 + ucast (c - 0x30) < n * 10)"
        by (simp add: word_less_nat_alt n10)
      moreover have "\<not> (n * 10 + ucast (c - 0x30) > maxVal)"
        using True eq by (simp add: word_less_nat_alt maxVal_val)
      moreover have "n * 10 + ucast (c - 0x30) = (of_nat (unat n * 10 + ?d) :: 64 word)"
      proof -
        have "(of_nat (unat n * 10 + ?d) :: 64 word) = of_nat (unat (n * 10 + ucast (c - 0x30)))"
          by (simp only: eq)
        also have "\<dots> = n * 10 + ucast (c - 0x30)"
          by simp
        finally show ?thesis by simp
      qed
      ultimately show ?thesis
        using True False dc by (simp add: Let_def)
    next
      case F2: False
      then have "unat n * 10 + ?d - 2 ^ 64 < 2 ^ 64" using n d9 by simp
      then have "(unat n * 10 + ?d) mod 2 ^ 64 = unat n * 10 + ?d - 2 ^ 64"
        using F2 by (simp add: mod_if)
      then have "unat (n * 10 + ucast (c - 0x30)) < unat (n * 10)"
        using sum n10 d9 F2 by (simp, arith)
      then have "n * 10 + ucast (c - 0x30) < n * 10"
        by (simp add: word_less_nat_alt)
      then show ?thesis
        using F2 False dc by (simp add: Let_def)
    qed
  qed
qed

lemma ParseUint_loop_digits:
  "\<forall>c \<in> set cs. is_digit c \<Longrightarrow>
   ParseUint_loop cs n =
     (if decimal (unat n) cs < 2 ^ 64 then (of_nat (decimal (unat n) cs), None)
      else (maxVal, Some ErrRange))"
proof (induction cs arbitrary: n)
  case Nil
  show ?case using unat64_lt [of n] by simp
next
  case (Cons c cs)
  let ?m = "unat n * 10 + (unat c - 48)"
  have c: "is_digit c" and cs: "\<forall>c \<in> set cs. is_digit c"
    using Cons.prems by simp_all
  show ?case
  proof (cases "?m < 2 ^ 64")
    case True
    then have u: "unat (of_nat ?m :: 64 word) = ?m"
      by (rule unat_of_nat64)
    have "ParseUint_loop (c # cs) n = ParseUint_loop cs (of_nat ?m)"
      using True by (simp only: ParseUint_loop_digit [OF c] if_True)
    also have "\<dots> = (if decimal ?m cs < 2 ^ 64 then (of_nat (decimal ?m cs), None)
        else (maxVal, Some ErrRange))"
      by (simp only: Cons.IH [OF cs] u)
    finally show ?thesis
      by simp
  next
    case False
    moreover have "?m \<le> decimal ?m cs" by (rule decimal_ge)
    ultimately have "\<not> decimal ?m cs < 2 ^ 64" by simp
    moreover have "ParseUint_loop (c # cs) n = (maxVal, Some ErrRange)"
      using False by (simp only: ParseUint_loop_digit [OF c] if_False)
    ultimately show ?thesis
      by simp
  qed
qed


lemma ParseUint_digits:
  assumes "digits ds"
  shows "ParseUint ds =
     (if decimal 0 (bytes_of ds) < 2 ^ 64 then (of_nat (decimal 0 (bytes_of ds)), None)
      else (maxVal, Some ErrRange))"
proof -
  have "\<forall>c \<in> set (bytes_of ds). is_digit c"
    using assms by (simp add: digits_def bytes_of_def)
  then have "ParseUint_loop (bytes_of ds) 0 =
     (if decimal (unat (0 :: 64 word)) (bytes_of ds) < 2 ^ 64
      then (of_nat (decimal (unat (0 :: 64 word)) (bytes_of ds)), None)
      else (maxVal, Some ErrRange))"
    by (rule ParseUint_loop_digits)
  moreover have "ds \<noteq> []"
    using assms by (simp add: digits_def)
  ultimately show ?thesis
    by (simp add: ParseUint_def)
qed

lemma digits_hd: "digits ds \<Longrightarrow> hd ds \<noteq> CHR ''+'' \<and> hd ds \<noteq> CHR ''-''"
proof -
  assume d: "digits ds"
  then obtain c cs where ds: "ds = c # cs"
    by (cases ds) (simp_all add: digits_def)
  with d have "is_digit (of_char c)"
    by (simp add: digits_def)
  then have "c \<noteq> CHR ''+'' \<and> c \<noteq> CHR ''-''"
    by (auto simp: is_digit_def)
  with ds show ?thesis by simp
qed

lemma signed_cases:
  assumes "digits ds"
  shows "ParseUint ds = (un, e) \<Longrightarrow> e = None \<or> e = Some ErrRange"
  using ParseUint_digits [OF assms] by (auto split: if_splits)

lemma ParseInt_unsigned:
  assumes "digits ds" and "s = ds \<or> s = CHR ''+'' # ds"
  shows "ParseInt s =
     (if decimal 0 (bytes_of ds) < 2 ^ 63 then (of_nat (decimal 0 (bytes_of ds)), None)
      else (int_cutoff - 1, Some ErrRange))"
proof -
  let ?N = "decimal 0 (bytes_of ds)"
  have ne: "s \<noteq> []" and neg: "hd s \<noteq> CHR ''-''"
    and s1: "(if hd s = CHR ''+'' \<or> hd s = CHR ''-'' then tl s else s) = ds"
    using assms digits_hd [OF assms(1)] by (auto simp: digits_def)
  have PI: "ParseInt s = (case ParseUint ds of (un, e) \<Rightarrow>
          if e \<noteq> None \<and> e \<noteq> Some ErrRange then (0, e)
          else if un \<ge> int_cutoff then (int_cutoff - 1, Some ErrRange)
          else (un, None))"
    using ne neg s1 by (simp add: ParseInt_def Let_def split: prod.split)
  show ?thesis
  proof (cases "?N < 2 ^ 64")
    case True
    then have "unat (of_nat ?N :: 64 word) = ?N"
      by (rule unat_of_nat64)
    then have "(of_nat ?N :: 64 word) \<ge> int_cutoff \<longleftrightarrow> \<not> ?N < 2 ^ 63"
      by (simp add: word_le_nat_alt int_cutoff_val not_less)
    then show ?thesis
      using True by (simp add: PI ParseUint_digits [OF assms(1)])
  next
    case False
    then have "\<not> ?N < 2 ^ 63" by simp
    moreover have "maxVal \<ge> int_cutoff"
      by (simp add: word_le_nat_alt int_cutoff_val maxVal_val)
    ultimately show ?thesis
      using False by (simp add: PI ParseUint_digits [OF assms(1)])
  qed
qed

lemma ParseInt_negative:
  assumes "digits ds"
  shows "ParseInt (CHR ''-'' # ds) =
     (if decimal 0 (bytes_of ds) \<le> 2 ^ 63 then (- of_nat (decimal 0 (bytes_of ds)), None)
      else (- int_cutoff, Some ErrRange))"
proof -
  let ?N = "decimal 0 (bytes_of ds)"
  have PI: "ParseInt (CHR ''-'' # ds) = (case ParseUint ds of (un, e) \<Rightarrow>
          if e \<noteq> None \<and> e \<noteq> Some ErrRange then (0, e)
          else if un > int_cutoff then (- int_cutoff, Some ErrRange)
          else (- un, None))"
    by (simp add: ParseInt_def Let_def split: prod.split)
  show ?thesis
  proof (cases "?N < 2 ^ 64")
    case True
    then have "unat (of_nat ?N :: 64 word) = ?N"
      by (rule unat_of_nat64)
    then have "(of_nat ?N :: 64 word) > int_cutoff \<longleftrightarrow> \<not> ?N \<le> 2 ^ 63"
      by (simp add: word_less_nat_alt int_cutoff_val not_le)
    then show ?thesis
      using True by (simp add: PI ParseUint_digits [OF assms(1)])
  next
    case False
    then have "\<not> ?N \<le> 2 ^ 63" by simp
    moreover have "maxVal > int_cutoff"
      by (simp add: word_less_nat_alt int_cutoff_val maxVal_val)
    ultimately show ?thesis
      using False by (simp add: PI ParseUint_digits [OF assms(1)])
  qed
qed

lemma sint_max: "sint (int_cutoff - 1) = 2 ^ 63 - 1"
  by (simp add: int_cutoff_def)

lemma sint_min: "sint (- int_cutoff) = - (2 ^ 63)"
  by (simp add: int_cutoff_def)


lemma Int64_nonempty:
  "err p = None \<Longrightarrow> 0 \<le> i \<Longrightarrow> i < int (length (Fields p)) \<Longrightarrow> Fields p ! nat i = s \<Longrightarrow>
   s \<noteq> '''' \<Longrightarrow>
   Int64 i context p =
     (fst (ParseInt s),
      if snd (ParseInt s) = None then p else p\<lparr>err := Some (Errorf (Prefix p) context s)\<rparr>)"
  by (simp add: Int64_def String_def SetErr_def split: prod.split)

lemma Float64_nonempty:
  "err p = None \<Longrightarrow> 0 \<le> i \<Longrightarrow> i < int (length (Fields p)) \<Longrightarrow> Fields p ! nat i = s \<Longrightarrow>
   s \<noteq> '''' \<Longrightarrow>
   Float64 ParseFloat i context p =
     (fst (ParseFloat s),
      if snd (ParseFloat s) = None then p else p\<lparr>err := Some (Errorf (Prefix p) context s)\<rparr>)"
  by (simp add: Float64_def String_def SetErr_def split: prod.split)

lemma Int64_empty:
  "err p = None \<Longrightarrow> 0 \<le> i \<Longrightarrow> i < int (length (Fields p)) \<Longrightarrow> Fields p ! nat i = '''' \<Longrightarrow>
   Int64 i context p = (0, p) \<and> Float64 ParseFloat i context p = (0, p)"
  by (simp add: Int64_def Float64_def String_def)

text \<open>
  C9. On an accessor without a latched error and at a valid index, \<^verbatim>\<open>Int64\<close> and
  \<^verbatim>\<open>Float64\<close> return 0 on the empty field and latch nothing; on a field whose
  conversion fails they latch the error whose reported value is the field. The field
  \<^verbatim>\<open>12x\<close> is no base-10 integer: \<^verbatim>\<open>ParseInt\<close> reports a syntax error for it.
\<close>

theorem Int64_Float64_empty_and_malformed:
  "err p = None \<Longrightarrow> 0 \<le> i \<Longrightarrow> i < int (length (Fields p)) \<Longrightarrow>
     (Fields p ! nat i = '''' \<longrightarrow>
        Int64 i context p = (0, p) \<and> Float64 ParseFloat i context p = (0, p))
   \<and> (Fields p ! nat i \<noteq> '''' \<and> snd (ParseInt (Fields p ! nat i)) \<noteq> None \<longrightarrow>
        snd (Int64 i context p)
          = p\<lparr>err := Some (Errorf (Prefix p) context (Fields p ! nat i))\<rparr>)
   \<and> (Fields p ! nat i \<noteq> '''' \<and> snd (ParseFloat (Fields p ! nat i)) \<noteq> None \<longrightarrow>
        snd (Float64 ParseFloat i context p)
          = p\<lparr>err := Some (Errorf (Prefix p) context (Fields p ! nat i))\<rparr>)
   \<and> ParseInt ''12x'' = (0, Some ErrSyntax)"
proof -
  assume a: "err p = None" "0 \<le> i" "i < int (length (Fields p))"
  have A: "Fields p ! nat i = '''' \<longrightarrow>
        Int64 i context p = (0, p) \<and> Float64 ParseFloat i context p = (0, p)"
    using Int64_empty [OF a] by blast
  have B: "Fields p ! nat i \<noteq> '''' \<and> snd (ParseInt (Fields p ! nat i)) \<noteq> None \<longrightarrow>
        snd (Int64 i context p)
          = p\<lparr>err := Some (Errorf (Prefix p) context (Fields p ! nat i))\<rparr>"
    using Int64_nonempty [OF a refl] by simp
  have C: "Fields p ! nat i \<noteq> '''' \<and> snd (ParseFloat (Fields p ! nat i)) \<noteq> None \<longrightarrow>
        snd (Float64 ParseFloat i context p)
          = p\<lparr>err := Some (Errorf (Prefix p) context (Fields p ! nat i))\<rparr>"
    using Float64_nonempty [OF a refl, where ParseFloat = ParseFloat] by simp
  have D: "ParseInt ''12x'' = (0, Some ErrSyntax)"
    by (simp add: ParseInt_def ParseUint_def bytes_of_def lower_def uint_cutoff_def maxVal_def Let_def
        word_le_nat_alt word_less_nat_alt)
  from A B C D show ?thesis
    by blast
qed

theorem Int64_Float64_empty_and_malformed_witness:
  "Int64 1 ''n'' (ex_parser [''12x'', '''']) = (0, ex_parser [''12x'', ''''])
   \<and> Float64 (\<lambda>s. if s = ''12x'' then (0 :: int, Some ()) else (1, None)) 1 ''n''
        (ex_parser [''12x'', '''']) = (0, ex_parser [''12x'', ''''])
   \<and> snd (Int64 0 ''n'' (ex_parser [''12x'', '''']))
       = \<lparr>Type = ''VDM'', Prefix = ''AIVDM'', Fields = [''12x'', ''''],
          err = Some ''nmea: AIVDM invalid n: 12x''\<rparr>
   \<and> snd (Float64 (\<lambda>s. if s = ''12x'' then (0 :: int, Some ()) else (1, None)) 0 ''n''
        (ex_parser [''12x'', '''']))
       = \<lparr>Type = ''VDM'', Prefix = ''AIVDM'', Fields = [''12x'', ''''],
          err = Some ''nmea: AIVDM invalid n: 12x''\<rparr>"
  using Int64_Float64_empty_and_malformed [of "ex_parser [''12x'', '''']" 1 "''n''"
      "\<lambda>s. if s = ''12x'' then (0 :: int, Some ()) else (1, None)"]
    Int64_Float64_empty_and_malformed [of "ex_parser [''12x'', '''']" 0 "''n''"
      "\<lambda>s. if s = ''12x'' then (0 :: int, Some ()) else (1, None)"]
  by (simp add: ex_parser_def Errorf_def)

text \<open>
  C10. On the call in which the conversion fails, \<^verbatim>\<open>Int64\<close> and \<^verbatim>\<open>Float64\<close> return the
  value the conversion produced, together with latching its error: not necessarily 0.
  For a field of decimal digits, with or without a sign, whose value is out of range,
  \<^verbatim>\<open>Int64\<close> latches the error and returns the largest \<^verbatim>\<open>int64\<close>, or the smallest
  after a minus sign.
\<close>

theorem Int64_Float64_conversion_result:
  "err p = None \<Longrightarrow> 0 \<le> i \<Longrightarrow> i < int (length (Fields p)) \<Longrightarrow> Fields p ! nat i = s \<Longrightarrow>
   s \<noteq> '''' \<Longrightarrow>
     Int64 i context p =
       (fst (ParseInt s),
        if snd (ParseInt s) = None then p else p\<lparr>err := Some (Errorf (Prefix p) context s)\<rparr>)
   \<and> Float64 ParseFloat i context p =
       (fst (ParseFloat s),
        if snd (ParseFloat s) = None then p else p\<lparr>err := Some (Errorf (Prefix p) context s)\<rparr>)
   \<and> (digits ds \<and> (s = ds \<or> s = CHR ''+'' # ds) \<and> 2 ^ 63 \<le> decimal 0 (bytes_of ds) \<longrightarrow>
        sint (fst (Int64 i context p)) = 2 ^ 63 - 1
      \<and> snd (Int64 i context p) = p\<lparr>err := Some (Errorf (Prefix p) context s)\<rparr>)
   \<and> (digits ds \<and> s = CHR ''-'' # ds \<and> 2 ^ 63 < decimal 0 (bytes_of ds) \<longrightarrow>
        sint (fst (Int64 i context p)) = - (2 ^ 63)
      \<and> snd (Int64 i context p) = p\<lparr>err := Some (Errorf (Prefix p) context s)\<rparr>)"
proof -
  assume a: "err p = None" "0 \<le> i" "i < int (length (Fields p))" "Fields p ! nat i = s" "s \<noteq> ''''"
  note I = Int64_nonempty [OF a]
  have C: "digits ds \<and> (s = ds \<or> s = CHR ''+'' # ds) \<and> 2 ^ 63 \<le> decimal 0 (bytes_of ds) \<longrightarrow>
        sint (fst (Int64 i context p)) = 2 ^ 63 - 1
      \<and> snd (Int64 i context p) = p\<lparr>err := Some (Errorf (Prefix p) context s)\<rparr>"
  proof
    assume h: "digits ds \<and> (s = ds \<or> s = CHR ''+'' # ds) \<and> 2 ^ 63 \<le> decimal 0 (bytes_of ds)"
    then have "ParseInt s = (int_cutoff - 1, Some ErrRange)"
      using ParseInt_unsigned [of ds s] by simp
    then show "sint (fst (Int64 i context p)) = 2 ^ 63 - 1
      \<and> snd (Int64 i context p) = p\<lparr>err := Some (Errorf (Prefix p) context s)\<rparr>"
      by (simp add: I sint_max)
  qed
  have D: "digits ds \<and> s = CHR ''-'' # ds \<and> 2 ^ 63 < decimal 0 (bytes_of ds) \<longrightarrow>
        sint (fst (Int64 i context p)) = - (2 ^ 63)
      \<and> snd (Int64 i context p) = p\<lparr>err := Some (Errorf (Prefix p) context s)\<rparr>"
  proof
    assume h: "digits ds \<and> s = CHR ''-'' # ds \<and> 2 ^ 63 < decimal 0 (bytes_of ds)"
    then have "ParseInt s = (- int_cutoff, Some ErrRange)"
      using ParseInt_negative [of ds] by simp
    then show "sint (fst (Int64 i context p)) = - (2 ^ 63)
      \<and> snd (Int64 i context p) = p\<lparr>err := Some (Errorf (Prefix p) context s)\<rparr>"
      by (simp add: I sint_min)
  qed
  from I Float64_nonempty [OF a, where ParseFloat = ParseFloat] C D show ?thesis
    by blast
qed

theorem Int64_Float64_conversion_result_witness:
  "sint (fst (Int64 0 ''n'' (ex_parser [''99999999999999999999'', ''-99999999999999999999''])))
      = 9223372036854775807
   \<and> err (snd (Int64 0 ''n'' (ex_parser [''99999999999999999999'', ''-99999999999999999999''])))
      = Some ''nmea: AIVDM invalid n: 99999999999999999999''
   \<and> sint (fst (Int64 1 ''n'' (ex_parser [''99999999999999999999'', ''-99999999999999999999''])))
      = - 9223372036854775808
   \<and> err (snd (Int64 1 ''n'' (ex_parser [''99999999999999999999'', ''-99999999999999999999''])))
      = Some ''nmea: AIVDM invalid n: -99999999999999999999''
   \<and> fst (Float64 (\<lambda>s. (7 :: int, Some ())) 0 ''n''
        (ex_parser [''99999999999999999999'', ''-99999999999999999999''])) = 7"
proof -
  let ?A = "''99999999999999999999''"
  let ?B = "''-99999999999999999999''"
  let ?p = "ex_parser [?A, ?B]"
  let ?F = "\<lambda>s :: string. (7 :: int, Some ())"
  have d: "digits ?A"
    by (simp add: digits_def is_digit_def)
  have v: "2 ^ 63 \<le> decimal 0 (bytes_of ?A)" "2 ^ 63 < decimal 0 (bytes_of ?A)"
    by (simp_all add: bytes_of_def)
  have h0: "err ?p = None" "0 \<le> (0 :: int)" "0 < int (length (Fields ?p))"
      "Fields ?p ! nat 0 = ?A" "?A \<noteq> ''''"
    by (simp_all add: ex_parser_def)
  have h1: "err ?p = None" "0 \<le> (1 :: int)" "1 < int (length (Fields ?p))"
      "Fields ?p ! nat 1 = ?B" "?B \<noteq> ''''"
    by (simp_all add: ex_parser_def)
  note T0 = Int64_Float64_conversion_result [OF h0, where ParseFloat = ?F and ds = ?A]
  note T1 = Int64_Float64_conversion_result [OF h1, where ParseFloat = ?F and ds = ?A]
  have pos: "sint (fst (Int64 0 ''n'' ?p)) = 2 ^ 63 - 1
      \<and> snd (Int64 0 ''n'' ?p) = ?p\<lparr>err := Some (Errorf (Prefix ?p) ''n'' ?A)\<rparr>"
    using T0 [THEN conjunct2, THEN conjunct2, THEN conjunct1] d v(1) by blast
  have neg: "sint (fst (Int64 1 ''n'' ?p)) = - (2 ^ 63)
      \<and> snd (Int64 1 ''n'' ?p) = ?p\<lparr>err := Some (Errorf (Prefix ?p) ''n'' ?B)\<rparr>"
    using T1 [THEN conjunct2, THEN conjunct2, THEN conjunct2] d v(2) by blast
  have flt: "fst (Float64 ?F 0 ''n'' ?p) = 7"
    using T0 [THEN conjunct2, THEN conjunct1] by simp
  have e: "Errorf (Prefix ?p) ''n'' ?A = ''nmea: AIVDM invalid n: 99999999999999999999''"
      "Errorf (Prefix ?p) ''n'' ?B = ''nmea: AIVDM invalid n: -99999999999999999999''"
    by (simp_all add: ex_parser_def Errorf_def)
  from pos neg flt show ?thesis
    by (simp add: e)
qed

section \<open>Enumerations by character\<close>

lemma match_option_eq:
  "match_option options rs strs = (if rs \<in> set options then strs @ [rs] else strs)"
  by (induction options) auto

lemma EnumChars_loop_eq:
  "EnumChars_loop rs options strs
     = strs @ filter (\<lambda>x. x \<in> set options) (map string_of_rune rs)"
  by (induction rs arbitrary: strs) (simp_all add: match_option_eq)

lemma length_range_runes: "length (range_runes bs) \<le> length bs"
proof (induction bs rule: range_runes.induct)
  case 1
  show ?case by simp
next
  case (2 b bs)
  obtain r w where d: "DecodeRune (b # bs) = (r, w)"
    by (cases "DecodeRune (b # bs)")
  then have "1 \<le> w"
    using DecodeRune_width [of "b # bs"] by simp
  moreover have "length (range_runes (drop w (b # bs))) \<le> length (drop w (b # bs))"
    using "2.IH" [OF d [symmetric]] by simp
  ultimately show ?case
    using d by simp
qed

lemma range_runes_ascii:
  "\<forall>b \<in> set bs. b < 0x80 \<Longrightarrow> range_runes bs = map rune_of bs"
  by (induction bs) (simp_all add: first_size_def)

lemma byte_of_rune_of: "byte_of (rune_of b) = b"
  by (simp add: byte_of_def rune_of_def ucast_up_ucast_id is_up)

lemma rune_of_ascii: "b < 0x80 \<Longrightarrow> rune_of b \<le> 0x7F"
proof -
  assume "b < 0x80"
  then have "unat b < 128"
    by (simp add: word_less_nat_alt)
  moreover have "unat (rune_of b) = unat b"
  proof -
    have "unat b < 2 ^ 8"
      by (rule order_less_le_trans [OF unsigned_less]) simp
    then have "unat b < 2 ^ 32" by simp
    then show ?thesis
      by (simp add: rune_of_def unsigned_ucast_eq take_bit_nat_eq_self)
  qed
  ultimately show ?thesis
    by (simp add: word_le_nat_alt)
qed

lemma string_of_rune_ascii:
  assumes "(of_char c :: nat) < 128"
  shows "string_of_rune (rune_of (of_char c)) = [c]"
proof -
  have "unat (of_char c :: byte) < 128"
    using assms by (simp add: unat_byte_of_char)
  then have "(of_char c :: byte) < 0x80"
    by (simp add: word_less_nat_alt)
  then have "rune_of (of_char c) \<le> 0x7F"
    by (rule rune_of_ascii)
  then have "EncodeRune (rune_of (of_char c)) = [of_char c]"
    by (simp add: EncodeRune_def byte_of_rune_of)
  then show ?thesis
    by (simp add: string_of_rune_def string_of_bytes_def unat_byte_of_char)
qed


lemma EnumChars_nonempty:
  "err p = None \<Longrightarrow> 0 \<le> i \<Longrightarrow> i < int (length (Fields p)) \<Longrightarrow> Fields p ! nat i = s \<Longrightarrow>
   s \<noteq> '''' \<Longrightarrow>
   EnumChars i context options p =
     (let strs = filter (\<lambda>x. x \<in> set options) (map string_of_rune (range_runes (bytes_of s)))
      in if length strs \<noteq> length s
         then ([], p\<lparr>err := Some (Errorf (Prefix p) context s)\<rparr>)
         else (strs, p))"
  by (simp add: EnumChars_def String_def SetErr_def EnumChars_loop_eq Let_def)

text \<open>
  On a field of ASCII characters each of which is an option, \<^verbatim>\<open>EnumChars\<close> returns the
  characters of the field, one string each, in order.
\<close>

lemma EnumChars_ascii_matched:
  assumes "err p = None" "0 \<le> i" "i < int (length (Fields p))" "Fields p ! nat i = s" "s \<noteq> ''''"
    and "\<forall>c \<in> set s. (of_char c :: nat) < 128 \<and> [c] \<in> set options"
  shows "EnumChars i context options p = (map (\<lambda>c. [c]) s, p)"
proof -
  have "\<forall>b \<in> set (bytes_of s). b < 0x80"
    using assms(6) by (auto simp: bytes_of_def word_less_nat_alt unat_byte_of_char)
  then have "range_runes (bytes_of s) = map rune_of (bytes_of s)"
    by (rule range_runes_ascii)
  then have "map string_of_rune (range_runes (bytes_of s))
      = map (\<lambda>c. string_of_rune (rune_of (of_char c))) s"
    by (simp add: bytes_of_def)
  also have "\<dots> = map (\<lambda>c. [c]) s"
    using assms(6) by (simp add: string_of_rune_ascii)
  finally have m: "map string_of_rune (range_runes (bytes_of s)) = map (\<lambda>c. [c]) s" .
  have "filter (\<lambda>x. x \<in> set options) (map (\<lambda>c. [c]) s) = map (\<lambda>c. [c]) s"
    using assms(6) by (simp add: filter_id_conv)
  then show ?thesis
    by (simp add: EnumChars_nonempty [OF assms(1-5)] m)
qed

text \<open>
  On any field, if the string of some rune of the field is no option, \<^verbatim>\<open>EnumChars\<close>
  latches the error that reports the whole field, and returns the empty sequence.
\<close>

lemma EnumChars_unmatched:
  assumes "err p = None" "0 \<le> i" "i < int (length (Fields p))" "Fields p ! nat i = s" "s \<noteq> ''''"
    and "\<exists>r \<in> set (range_runes (bytes_of s)). string_of_rune r \<notin> set options"
  shows "EnumChars i context options p = ([], p\<lparr>err := Some (Errorf (Prefix p) context s)\<rparr>)"
proof -
  let ?xs = "map string_of_rune (range_runes (bytes_of s))"
  obtain x where "x \<in> set ?xs" "\<not> x \<in> set options"
    using assms(6) by auto
  then have "length (filter (\<lambda>x. x \<in> set options) ?xs) < length ?xs"
    by (rule length_filter_less)
  also have "length ?xs \<le> length (bytes_of s)"
    using length_range_runes [of "bytes_of s"] by simp
  finally have "length (filter (\<lambda>x. x \<in> set options) ?xs) \<noteq> length s"
    by (simp add: length_bytes_of)
  then show ?thesis
    by (simp add: EnumChars_nonempty [OF assms(1-5)] Let_def)
qed

text \<open>
  C5, where the code departs from it. The field is the single character U+00E9, two
  bytes in UTF-8, and the only option is that same character. The loop decodes one rune,
  its string equals the option, and \<^verbatim>\<open>strs\<close> holds that one match; but \<^verbatim>\<open>len(s)\<close> counts
  the two bytes, so the comparison \<^verbatim>\<open>len(strs) != len(s)\<close> fails the field and the error
  is latched.
\<close>

theorem EnumChars_multibyte_rejected:
  "range_runes (bytes_of [CHR 0xC3, CHR 0xA9]) = [0xE9]
   \<and> string_of_rune 0xE9 = [CHR 0xC3, CHR 0xA9]
   \<and> EnumChars_loop (range_runes (bytes_of [CHR 0xC3, CHR 0xA9])) [[CHR 0xC3, CHR 0xA9]] []
       = [[CHR 0xC3, CHR 0xA9]]
   \<and> EnumChars 0 ''mode'' [[CHR 0xC3, CHR 0xA9]] (ex_parser [[CHR 0xC3, CHR 0xA9]])
       = ([], \<lparr>Type = ''VDM'', Prefix = ''AIVDM'', Fields = [[CHR 0xC3, CHR 0xA9]],
                err = Some (''nmea: AIVDM invalid mode: '' @ [CHR 0xC3, CHR 0xA9])\<rparr>)"
proof -
  have r: "range_runes (bytes_of [CHR 0xC3, CHR 0xA9]) = [0xE9]"
    by (simp add: bytes_of_def first_size_def accept_lo_def accept_hi_def rune_of_def Let_def)
  have s: "string_of_rune 0xE9 = [CHR 0xC3, CHR 0xA9]"
    by (simp add: string_of_rune_def string_of_bytes_def EncodeRune_def byte_of_def char_of_def bit_0)
  have l: "EnumChars_loop (range_runes (bytes_of [CHR 0xC3, CHR 0xA9])) [[CHR 0xC3, CHR 0xA9]] []
       = [[CHR 0xC3, CHR 0xA9]]"
    by (simp add: r s)
  have "EnumChars 0 ''mode'' [[CHR 0xC3, CHR 0xA9]] (ex_parser [[CHR 0xC3, CHR 0xA9]])
       = ([], \<lparr>Type = ''VDM'', Prefix = ''AIVDM'', Fields = [[CHR 0xC3, CHR 0xA9]],
                err = Some (''nmea: AIVDM invalid mode: '' @ [CHR 0xC3, CHR 0xA9])\<rparr>)"
    by (simp add: EnumChars_def String_def ex_parser_def l SetErr_def Errorf_def)
  with r s l show ?thesis
    by simp
qed

theorem EnumChars_multibyte_rejected_witness:
  "length (EnumChars_loop (range_runes (bytes_of [CHR 0xC3, CHR 0xA9])) [[CHR 0xC3, CHR 0xA9]] []) = 1
   \<and> length [CHR 0xC3, CHR 0xA9] = 2
   \<and> fst (EnumChars 0 ''mode'' [[CHR 0xC3, CHR 0xA9]] (ex_parser [[CHR 0xC3, CHR 0xA9]])) = []
   \<and> err (snd (EnumChars 0 ''mode'' [[CHR 0xC3, CHR 0xA9]] (ex_parser [[CHR 0xC3, CHR 0xA9]])))
       \<noteq> None"
  using EnumChars_multibyte_rejected by simp

lemma EnumChars_examples:
  "EnumChars 0 ''mode'' [''A'', ''B''] (ex_parser [''ABA'']) = ([''A'', ''B'', ''A''], ex_parser [''ABA''])"
  "EnumChars 0 ''mode'' [''A'', ''B''] (ex_parser [''ABX''])
     = ([], \<lparr>Type = ''VDM'', Prefix = ''AIVDM'', Fields = [''ABX''],
              err = Some ''nmea: AIVDM invalid mode: ABX''\<rparr>)"
proof -
  show "EnumChars 0 ''mode'' [''A'', ''B''] (ex_parser [''ABA'']) = ([''A'', ''B'', ''A''], ex_parser [''ABA''])"
    using EnumChars_ascii_matched [of "ex_parser [''ABA'']" 0 "''ABA''" "[''A'', ''B'']" "''mode''"]
    by (simp add: ex_parser_def)
  have "string_of_rune (rune_of (of_char CHR ''X'')) = ''X''"
    by (rule string_of_rune_ascii) simp
  moreover have "range_runes (bytes_of ''ABX'') = map rune_of (bytes_of ''ABX'')"
    by (rule range_runes_ascii) (simp add: bytes_of_def)
  ultimately have "\<exists>r \<in> set (range_runes (bytes_of ''ABX'')). string_of_rune r \<notin> set [''A'', ''B'']"
    by (simp add: bytes_of_def)
  then have "EnumChars 0 ''mode'' [''A'', ''B''] (ex_parser [''ABX''])
     = ([], (ex_parser [''ABX''])\<lparr>err := Some (Errorf (Prefix (ex_parser [''ABX''])) ''mode'' ''ABX'')\<rparr>)"
    by (intro EnumChars_unmatched) (simp_all add: ex_parser_def)
  then show "EnumChars 0 ''mode'' [''A'', ''B''] (ex_parser [''ABX''])
     = ([], \<lparr>Type = ''VDM'', Prefix = ''AIVDM'', Fields = [''ABX''],
              err = Some ''nmea: AIVDM invalid mode: ABX''\<rparr>)"
    by (simp add: ex_parser_def Errorf_def)
qed

end
